theory Spec2Isabelle
  imports Complex_Main "HOL-Library.Signed_Division"
begin

section \<open>Data model\<close>

text \<open>
  The TypeScript type \<^verbatim>\<open>number\<close> is modelled by \<^typ>\<open>real\<close>: IEEE-754 rounding, NaN and
  the infinities are outside the model. Every value of the declared type is therefore a
  number, and the run-time tests \<^verbatim>\<open>typeof p.x === "number"\<close>, \<^verbatim>\<open>p.x !== undefined\<close> and
  \<^verbatim>\<open>!isNaN(p.x)\<close> of the source hold of every modelled point; what remains of the guards
  is whether an array element exists at all. Optional fields are options, \<^verbatim>\<open>undefined\<close>
  being \<^term>\<open>None\<close>. Counts, indices and the smoothing level (a slider of step 1) are
  integers.
\<close>

record TrackPoint =
  x :: real
  y :: real
  z :: real
  distance :: "real option"
  sector :: "real option"

text \<open>
  \<^verbatim>\<open>xs[i]\<close> of JavaScript: the element when \<open>i\<close> is an index of the array, \<^verbatim>\<open>undefined\<close>
  otherwise.
\<close>

definition at_index :: "'a list \<Rightarrow> int \<Rightarrow> 'a option" where
  "at_index xs i = (if 0 \<le> i \<and> i < int (length xs) then Some (xs ! nat i) else None)"

section \<open>smoothPoints\<close>

text \<open>
  One iteration of the inner loop over \<open>j\<close>. The remainder \<^verbatim>\<open>%\<close> of JavaScript truncates
  towards zero, which is \<open>smod\<close>; the state is \<open>(sumX, sumY, sumZ, count)\<close>.
\<close>

definition window_step ::
  "TrackPoint list \<Rightarrow> int \<Rightarrow> int \<Rightarrow> real \<times> real \<times> real \<times> nat \<Rightarrow> real \<times> real \<times> real \<times> nat" where
  "window_step points i j = (\<lambda>(sumX, sumY, sumZ, count).
     (let index = (i + j + int (length points)) smod int (length points) in
      case at_index points index of
        Some point \<Rightarrow> (sumX + x point, sumY + y point, sumZ + z point, count + 1)
      | None \<Rightarrow> (sumX, sumY, sumZ, count)))"

definition window_sums :: "TrackPoint list \<Rightarrow> int \<Rightarrow> int \<Rightarrow> real \<times> real \<times> real \<times> nat" where
  "window_sums points halfWindow i =
     fold (window_step points i) [- halfWindow..halfWindow] (0, 0, 0, 0)"

text \<open>The point pushed in iteration \<open>i\<close> of the outer loop, if \<open>count > 0\<close>.\<close>

definition window_average :: "TrackPoint list \<Rightarrow> int \<Rightarrow> nat \<Rightarrow> TrackPoint option" where
  "window_average points halfWindow i =
     (case window_sums points halfWindow (int i) of (sumX, sumY, sumZ, count) \<Rightarrow>
        if count > 0
        then Some \<lparr>x = sumX / real count, y = sumY / real count, z = sumZ / real count,
                   distance = Option.bind (at_index points (int i)) distance,
                   sector = Option.bind (at_index points (int i)) sector\<rparr>
        else None)"

definition smooth_push :: "TrackPoint list \<Rightarrow> int \<Rightarrow> nat \<Rightarrow> TrackPoint list \<Rightarrow> TrackPoint list" where
  "smooth_push points halfWindow i smoothed =
     (case window_average points halfWindow i of
        Some p \<Rightarrow> smoothed @ [p]
      | None \<Rightarrow> smoothed)"

definition smoothPoints :: "TrackPoint list \<Rightarrow> int \<Rightarrow> TrackPoint list" where
  "smoothPoints points level =
     (if level = 0 \<or> length points < 3 then points
      else let windowSize = min (level * 2 + 1) (int (length points));
               halfWindow = windowSize div 2;
               smoothed = fold (smooth_push points halfWindow) [0..<length points] []
           in if length smoothed > 0 then smoothed else points)"

text \<open>
  The specification's reading of the filter, for comparison with the code: the indices of
  the \<open>w\<close> consecutive points of a ring of \<open>n\<close> points that start \<open>w div 2\<close> places
  before \<open>i\<close> (centred at \<open>i\<close> when \<open>w\<close> is odd, the whole ring when \<open>w = n\<close>), and the
  arithmetic mean of a coordinate over them.
\<close>

definition window_indices :: "nat \<Rightarrow> nat \<Rightarrow> nat \<Rightarrow> nat list" where
  "window_indices n w i = map (\<lambda>k. (i + n - w div 2 + k) mod n) [0..<w]"

definition window_mean :: "(TrackPoint \<Rightarrow> real) \<Rightarrow> TrackPoint list \<Rightarrow> nat \<Rightarrow> nat \<Rightarrow> real" where
  "window_mean f points w i =
     (\<Sum>k\<leftarrow>window_indices (length points) w i. f (points ! k)) / real w"

text \<open>A ring of four points, used to run the filter.\<close>

definition quad_track :: "TrackPoint list" where
  "quad_track =
     [\<lparr>x = 0, y = 0, z = 0, distance = Some 0, sector = Some 1\<rparr>,
      \<lparr>x = 0, y = 0, z = 0, distance = Some 10, sector = Some 1\<rparr>,
      \<lparr>x = 5, y = 0, z = 0, distance = Some 20, sector = Some 2\<rparr>,
      \<lparr>x = 0, y = 0, z = 0, distance = Some 30, sector = Some 3\<rparr>]"

section \<open>Alternate routes and their editing operations\<close>

text \<open>
  A tuple \<^verbatim>\<open>[number, number, number]\<close> is a triple of reals. The field \<^verbatim>\<open>id\<close> is
  \<open>route_id\<close> here. The three editing operations hand a function from the old routes to
  the new ones to the state setter; that function is what is modelled.
\<close>

type_synonym point3 = "real \<times> real \<times> real"

datatype segment = Straight | Curve

record AlternateRoute =
  route_id :: string
  name :: string
  startPoint :: point3
  endPoint :: point3
  controlPoints :: "point3 list option"
  segments :: "segment list option"

datatype js_error = TypeError

text \<open>
  \<^verbatim>\<open>v || 0\<close> for the result \<open>v\<close> of \<^verbatim>\<open>Number.parseFloat\<close>, where \<^term>\<open>None\<close> is NaN: NaN
  and 0 are the falsy numbers.
\<close>

definition or_zero :: "real option \<Rightarrow> real" where
  "or_zero v = (case v of None \<Rightarrow> 0 | Some r \<Rightarrow> if r = 0 then 0 else r)"

text \<open>
  \<^verbatim>\<open>Number.parseFloat\<close> is a built-in and a parameter of the model; \<open>newPointX\<close>,
  \<open>newPointY\<close> and \<open>newPointZ\<close> are the three input strings of the component's state.
\<close>

definition addControlPoint ::
  "(string \<Rightarrow> real option) \<Rightarrow> string \<Rightarrow> string \<Rightarrow> string \<Rightarrow> string \<Rightarrow>
   AlternateRoute list \<Rightarrow> AlternateRoute list" where
  "addControlPoint parseFloat newPointX newPointY newPointZ routeId routes =
     map (\<lambda>route.
        if route_id route = routeId
        then let cps = (case controlPoints route of Some ps \<Rightarrow> ps | None \<Rightarrow> []);
                 newPoint = (or_zero (parseFloat newPointX),
                             or_zero (parseFloat newPointY),
                             or_zero (parseFloat newPointZ))
             in route\<lparr>controlPoints := Some (cps @ [newPoint])\<rparr>
        else route) routes"

text \<open>The coordinate selector \<^verbatim>\<open>0 | 1 | 2\<close> and the assignment \<^verbatim>\<open>point[coordinate] = value\<close>.\<close>

datatype coordinate = C0 | C1 | C2

fun set_coordinate :: "point3 \<Rightarrow> coordinate \<Rightarrow> real \<Rightarrow> point3" where
  "set_coordinate (a, b, c) C0 v = (v, b, c)"
| "set_coordinate (a, b, c) C1 v = (a, v, c)"
| "set_coordinate (a, b, c) C2 v = (a, b, v)"

fun get_coordinate :: "point3 \<Rightarrow> coordinate \<Rightarrow> real" where
  "get_coordinate (a, b, c) C0 = a"
| "get_coordinate (a, b, c) C1 = b"
| "get_coordinate (a, b, c) C2 = c"

text \<open>
  \<^verbatim>\<open>routes.map(f)\<close> where \<open>f\<close> may throw: the first exception ends the map.
\<close>

fun map_throw :: "('a \<Rightarrow> js_error + 'b) \<Rightarrow> 'a list \<Rightarrow> js_error + 'b list" where
  "map_throw f [] = Inr []"
| "map_throw f (a # as) =
     (case f a of
        Inl e \<Rightarrow> Inl e
      | Inr b \<Rightarrow> (case map_throw f as of Inl e \<Rightarrow> Inl e | Inr bs \<Rightarrow> Inr (b # bs)))"

text \<open>
  The callback of updateControlPoint. An array is truthy, so the test
  \<^verbatim>\<open>route.controlPoints\<close> is that the field is present. Spreading
  \<^verbatim>\<open>newControlPoints[pointIndex]\<close> throws a TypeError when there is no such element.
\<close>

definition update_route ::
  "string \<Rightarrow> int \<Rightarrow> coordinate \<Rightarrow> real \<Rightarrow> AlternateRoute \<Rightarrow> js_error + AlternateRoute" where
  "update_route routeId pointIndex coord v route =
     (if route_id route = routeId \<and> controlPoints route \<noteq> None
      then (case controlPoints route of
              Some newControlPoints \<Rightarrow>
                (case at_index newControlPoints pointIndex of
                   None \<Rightarrow> Inl TypeError
                 | Some p \<Rightarrow>
                     Inr (route\<lparr>controlPoints :=
                            Some (newControlPoints[nat pointIndex := set_coordinate p coord v])\<rparr>))
            | None \<Rightarrow> Inr route)
      else Inr route)"

definition updateControlPoint ::
  "string \<Rightarrow> int \<Rightarrow> coordinate \<Rightarrow> real \<Rightarrow> AlternateRoute list \<Rightarrow> js_error + AlternateRoute list" where
  "updateControlPoint routeId pointIndex coord v routes =
     map_throw (update_route routeId pointIndex coord v) routes"

text \<open>\<^verbatim>\<open>xs.filter((_, i) => P(i))\<close>: the elements whose index satisfies \<open>P\<close>, in order.\<close>

definition filter_index :: "(nat \<Rightarrow> bool) \<Rightarrow> 'a list \<Rightarrow> 'a list" where
  "filter_index P xs = map fst (filter (\<lambda>(a, i). P i) (zip xs [0..<length xs]))"

definition deleteControlPoint :: "string \<Rightarrow> int \<Rightarrow> AlternateRoute list \<Rightarrow> AlternateRoute list" where
  "deleteControlPoint routeId pointIndex routes =
     map (\<lambda>route.
        if route_id route = routeId \<and> controlPoints route \<noteq> None
        then (case controlPoints route of
                Some cps \<Rightarrow>
                  (let newControlPoints = filter_index (\<lambda>i. int i \<noteq> pointIndex) cps
                   in route\<lparr>controlPoints :=
                        (if length newControlPoints > 0 then Some newControlPoints else None)\<rparr>)
              | None \<Rightarrow> route)
        else route) routes"

text \<open>
  The values of \<^verbatim>\<open>Number.parseFloat\<close> at four input strings; the other strings are not
  used by the examples.
\<close>

definition sample_parseFloat :: "string \<Rightarrow> real option" where
  "sample_parseFloat s =
     (if s = ''1.5'' then Some (3 / 2)
      else if s = ''-2'' then Some (- 2)
      else if s = ''0'' then Some 0
      else None)"

text \<open>Three of the routes of \<^verbatim>\<open>ALTERNATE_ROUTES\<close>, with their coordinates rounded.\<close>

definition chicane_bypass_1 :: AlternateRoute where
  "chicane_bypass_1 =
     \<lparr>route_id = ''chicane-bypass-1'', name = ''Chicane Bypass 1'',
      startPoint = (83, 4, 89), endPoint = (120, 6, 51),
      controlPoints = None, segments = None\<rparr>"

definition bypass_2 :: AlternateRoute where
  "bypass_2 =
     \<lparr>route_id = ''bypass-2'', name = ''Bypass 2'',
      startPoint = (26, 5, 51), endPoint = (-3, 7, 6),
      controlPoints = Some [(21, 6, 27)], segments = None\<rparr>"

definition bypass_3 :: AlternateRoute where
  "bypass_3 =
     \<lparr>route_id = ''bypass-3'', name = ''Bypass 3'',
      startPoint = (-93, 9, -25), endPoint = (-93, 9, 26),
      controlPoints = Some [(-78, 9, 7), (-78, 9, 19), (-81, 9, 23), (-85, 9, 25), (-90, 9, 26)],
      segments = Some [Straight, Straight, Curve, Curve, Curve, Curve]\<rparr>"

definition example_routes :: "AlternateRoute list" where
  "example_routes = [chicane_bypass_1, bypass_2, bypass_3]"

section \<open>Vectors and curves of the scene-graph library\<close>

text \<open>
  \<^verbatim>\<open>THREE.Vector3\<close> with the methods the components call, after the library: \<^verbatim>\<open>length\<close> is
  \<^verbatim>\<open>Math.sqrt(x*x + y*y + z*z)\<close>, \<^verbatim>\<open>divideScalar(s)\<close> is \<^verbatim>\<open>multiplyScalar(1 / s)\<close>, and
  \<^verbatim>\<open>normalize\<close> (\<open>normalize3\<close> here) is \<^verbatim>\<open>divideScalar(length() || 1)\<close>, which leaves the
  zero vector as it is.
  A curve is kept as the constructor call that made it: \<^verbatim>\<open>CatmullRomCurve3\<close> takes the
  points, \<^verbatim>\<open>closed\<close>, the curve type and the tension, the last two being
  \<^verbatim>\<open>"centripetal"\<close> and \<^verbatim>\<open>0.5\<close> when omitted. A \<^verbatim>\<open>CurvePath\<close> is the list of its curves.
\<close>

datatype Vector3 = Vector3 (vx: real) (vy: real) (vz: real)

definition vector_of :: "point3 \<Rightarrow> Vector3" where
  "vector_of p = (case p of (a, b, c) \<Rightarrow> Vector3 a b c)"

definition subVectors :: "Vector3 \<Rightarrow> Vector3 \<Rightarrow> Vector3" where
  "subVectors a b = Vector3 (vx a - vx b) (vy a - vy b) (vz a - vz b)"

definition addVectors :: "Vector3 \<Rightarrow> Vector3 \<Rightarrow> Vector3" where
  "addVectors a b = Vector3 (vx a + vx b) (vy a + vy b) (vz a + vz b)"

definition multiplyScalar :: "Vector3 \<Rightarrow> real \<Rightarrow> Vector3" where
  "multiplyScalar a s = Vector3 (vx a * s) (vy a * s) (vz a * s)"

definition divideScalar :: "Vector3 \<Rightarrow> real \<Rightarrow> Vector3" where
  "divideScalar a s = multiplyScalar a (1 / s)"

definition length3 :: "Vector3 \<Rightarrow> real" where
  "length3 a = sqrt (vx a * vx a + vy a * vy a + vz a * vz a)"

definition normalize3 :: "Vector3 \<Rightarrow> Vector3" where
  "normalize3 a = divideScalar a (if length3 a = 0 then 1 else length3 a)"

datatype Curve3 =
  LineCurve3 Vector3 Vector3
| CatmullRomCurve3 "Vector3 list" bool string real

section \<open>The path of an alternate route\<close>

definition allPoints :: "AlternateRoute \<Rightarrow> Vector3 list" where
  "allPoints route =
     [vector_of (startPoint route)] @
     (case controlPoints route of
        Some cps \<Rightarrow> if length cps > 0 then map vector_of cps else []
      | None \<Rightarrow> []) @
     [vector_of (endPoint route)]"

text \<open>
  The loop over \<^verbatim>\<open>route.segments\<close>, with \<open>currentIndex\<close> and the path built so far. Reading
  \<^verbatim>\<open>p1.x\<close> or \<^verbatim>\<open>p2.x\<close> of a point that is \<^verbatim>\<open>undefined\<close> throws a TypeError; a curve entry
  ends the loop.
\<close>

fun segment_loop :: "Vector3 list \<Rightarrow> segment list \<Rightarrow> nat \<Rightarrow> Curve3 list \<Rightarrow> js_error + Curve3 list" where
  "segment_loop pts [] currentIndex path = Inr path"
| "segment_loop pts (Straight # segs) currentIndex path =
     (case (at_index pts (int currentIndex), at_index pts (int currentIndex + 1)) of
        (Some p1, Some p2) \<Rightarrow>
          segment_loop pts segs (currentIndex + 1) (path @ [LineCurve3 p1 p2])
      | _ \<Rightarrow> Inl TypeError)"
| "segment_loop pts (Curve # segs) currentIndex path =
     Inr (path @ [CatmullRomCurve3 (drop currentIndex pts) False ''centripetal'' 0])"

definition routePath :: "AlternateRoute \<Rightarrow> js_error + Curve3 list" where
  "routePath route =
     (let pts = allPoints route in
      case segments route of
        Some segs \<Rightarrow>
          if length segs > 0 then segment_loop pts segs 0 []
          else Inr [CatmullRomCurve3 pts False ''centripetal'' (1 / 2)]
      | None \<Rightarrow> Inr [CatmullRomCurve3 pts False ''centripetal'' (1 / 2)])"

text \<open>
  The path as the specification describes it, for comparison with the loop: one line from
  point \<open>j\<close> to point \<open>j + 1\<close> for each of the straight entries before the first curve
  entry, then, if there is a curve entry, one curve through the points not yet passed.
\<close>

definition leading_straights :: "segment list \<Rightarrow> nat" where
  "leading_straights segs = length (takeWhile (\<lambda>s. s = Straight) segs)"

definition described_path :: "Vector3 list \<Rightarrow> segment list \<Rightarrow> Curve3 list" where
  "described_path pts segs =
     map (\<lambda>j. LineCurve3 (pts ! j) (pts ! (j + 1))) [0..<leading_straights segs] @
     (if leading_straights segs < length segs
      then [CatmullRomCurve3 (drop (leading_straights segs) pts) False ''centripetal'' 0]
      else [])"

text \<open>A route of two points and two straight entries.\<close>

definition two_straights_route :: AlternateRoute where
  "two_straights_route =
     \<lparr>route_id = ''shortcut'', name = ''Shortcut'',
      startPoint = (0, 0, 0), endPoint = (10, 0, 0),
      controlPoints = None, segments = Some [Straight, Straight]\<rparr>"

section \<open>Elevation scaling and the nearest point\<close>

text \<open>
  No real is NaN: \<^verbatim>\<open>isNaN\<close> is false of every modelled number, and the filter of
  TrackMesh, which also tests that the three fields are not \<^verbatim>\<open>undefined\<close>, keeps every
  modelled point.
\<close>

definition isNaN :: "real \<Rightarrow> bool" where
  "isNaN v = False"

definition validPoints :: "TrackPoint list \<Rightarrow> TrackPoint list" where
  "validPoints trackData =
     filter (\<lambda>p. \<not> isNaN (x p) \<and> \<not> isNaN (y p) \<and> \<not> isNaN (z p)) trackData"

definition processedPoints :: "TrackPoint list \<Rightarrow> int \<Rightarrow> TrackPoint list" where
  "processedPoints points smoothingLevel =
     (if smoothingLevel > 0 then smoothPoints points smoothingLevel else points)"

text \<open>
  \<^verbatim>\<open>Math.min(...vs)\<close>; of no arguments it is \<^verbatim>\<open>Infinity\<close>, which is \<^term>\<open>None\<close> here.
\<close>

fun Math_min :: "real list \<Rightarrow> real option" where
  "Math_min [] = None"
| "Math_min (v # vs) = Some (fold min vs v)"

text \<open>
  The points of the track curve in TrackMesh. With no processed point the offset is
  infinite and the map runs over no point.
\<close>

definition elevated_points :: "real \<Rightarrow> real \<Rightarrow> TrackPoint list \<Rightarrow> Vector3 list" where
  "elevated_points elevationMultiplier groundOffset processed =
     (case Math_min (map y processed) of
        None \<Rightarrow> []
      | Some minY \<Rightarrow>
          (let yOffset = minY * elevationMultiplier - groundOffset
           in map (\<lambda>p. Vector3 (x p) (y p * elevationMultiplier - yOffset) (z p)) processed))"

text \<open>The curve that the first memo of TrackMesh returns.\<close>

definition TrackMesh_curve :: "TrackPoint list \<Rightarrow> real \<Rightarrow> int \<Rightarrow> real \<Rightarrow> Curve3" where
  "TrackMesh_curve trackData elevationMultiplier smoothingLevel groundOffset =
     (if length (validPoints trackData) < 2
      then CatmullRomCurve3 [Vector3 0 0 0, Vector3 10 0 10] False ''centripetal'' (1 / 2)
      else CatmullRomCurve3
             (elevated_points elevationMultiplier groundOffset
                (processedPoints (validPoints trackData) smoothingLevel))
             True ''centripetal'' (1 / 2))"

text \<open>
  The search of StartFinishLine. \<open>adjusted_distance\<close> is \<open>dist\<close> of the source; the state of
  the loop is \<open>(closestIndex, minDistance)\<close>, where \<^term>\<open>None\<close> is the initial
  \<^verbatim>\<open>Number.POSITIVE_INFINITY\<close>, above every distance.
\<close>

definition adjusted_distance :: "point3 \<Rightarrow> real \<Rightarrow> real \<Rightarrow> TrackPoint \<Rightarrow> real" where
  "adjusted_distance position elevationMultiplier yOffset point =
     (case position of (p0, p1, p2) \<Rightarrow>
        (let adjustedY = y point * elevationMultiplier - yOffset
         in sqrt ((x point - p0)\<^sup>2 + (adjustedY - p1)\<^sup>2 + (z point - p2)\<^sup>2)))"

definition closest_step ::
  "point3 \<Rightarrow> real \<Rightarrow> real \<Rightarrow> TrackPoint \<times> nat \<Rightarrow> nat \<times> real option \<Rightarrow> nat \<times> real option" where
  "closest_step position elevationMultiplier yOffset = (\<lambda>(point, index) (closestIndex, minDistance).
     (let dist = adjusted_distance position elevationMultiplier yOffset point
      in if (case minDistance of None \<Rightarrow> True | Some d \<Rightarrow> dist < d)
         then (index, Some dist)
         else (closestIndex, minDistance)))"

definition closestIndex :: "point3 \<Rightarrow> real \<Rightarrow> real \<Rightarrow> TrackPoint list \<Rightarrow> nat" where
  "closestIndex position elevationMultiplier groundOffset processed =
     (case Math_min (map y processed) of
        None \<Rightarrow> 0
      | Some minY \<Rightarrow>
          (let yOffset = minY * elevationMultiplier - groundOffset
           in fst (fold (closest_step position elevationMultiplier yOffset)
                     (zip processed [0..<length processed]) (0, None))))"

definition StartFinishLine_closestIndex ::
  "point3 \<Rightarrow> TrackPoint list \<Rightarrow> real \<Rightarrow> int \<Rightarrow> real \<Rightarrow> nat" where
  "StartFinishLine_closestIndex position trackData elevationMultiplier smoothingLevel groundOffset =
     closestIndex position elevationMultiplier groundOffset
       (processedPoints trackData smoothingLevel)"

text \<open>A track of three points at heights 1, 2 and 4.\<close>

definition hill_track :: "TrackPoint list" where
  "hill_track =
     [\<lparr>x = 0, y = 1, z = 0, distance = None, sector = None\<rparr>,
      \<lparr>x = 3, y = 2, z = 0, distance = None, sector = None\<rparr>,
      \<lparr>x = 3, y = 4, z = 4, distance = None, sector = None\<rparr>]"

section \<open>The ribbon\<close>

text \<open>The two vertices that one curve point contributes.\<close>

definition ribbon_pair :: "real \<Rightarrow> Vector3 \<Rightarrow> Vector3 \<Rightarrow> Vector3 \<times> Vector3" where
  "ribbon_pair halfWidth point nextPoint =
     (let direction = normalize3 (subVectors nextPoint point);
          perpendicular = normalize3 (Vector3 (- vz direction) 0 (vx direction));
          leftPoint = addVectors point (multiplyScalar perpendicular halfWidth);
          rightPoint = addVectors point (multiplyScalar perpendicular (- halfWidth))
      in (leftPoint, rightPoint))"

definition push_pair :: "Vector3 \<times> Vector3 \<Rightarrow> real list \<Rightarrow> real list" where
  "push_pair lr vertices =
     (case lr of (leftPoint, rightPoint) \<Rightarrow>
        vertices @ [vx leftPoint, vy leftPoint, vz leftPoint]
                 @ [vx rightPoint, vy rightPoint, vz rightPoint])"

text \<open>
  The vertex array of the ribbon of TrackMesh, over the sampled points of the curve, which
  the library computes and which are a parameter here.
\<close>

definition trackRibbonVertices :: "real \<Rightarrow> Vector3 list \<Rightarrow> real list" where
  "trackRibbonVertices trackWidth curvePoints =
     (let halfWidth = trackWidth * (1 / 2) in
      fold (\<lambda>i vertices.
              let point = curvePoints ! i;
                  nextIndex = (i + 1) mod length curvePoints;
                  nextPoint = curvePoints ! nextIndex
              in push_pair (ribbon_pair halfWidth point nextPoint) vertices)
           [0..<length curvePoints] [])"

text \<open>The vertex array of the ribbon of AlternateRouteTrack.\<close>

definition routeRibbonVertices :: "real \<Rightarrow> Vector3 list \<Rightarrow> real list" where
  "routeRibbonVertices trackWidth segmentPoints =
     (let halfWidth = trackWidth * (1 / 2) in
      fold (\<lambda>i ribbonVertices.
              let point = segmentPoints ! i;
                  nextIndex = (i + 1) mod length segmentPoints;
                  nextPoint = segmentPoints ! (min nextIndex (length segmentPoints - 1))
              in push_pair (ribbon_pair halfWidth point nextPoint) ribbonVertices)
           [0..<length segmentPoints] [])"

text \<open>
  Two sampled points whose horizontal positions differ, and two that lie above one another.
\<close>

definition climb_points :: "Vector3 list" where
  "climb_points = [Vector3 0 0 0, Vector3 1 5 0]"

definition vertical_points :: "Vector3 list" where
  "vertical_points = [Vector3 0 0 0, Vector3 0 1 0]"

section \<open>Properties of smoothPoints\<close>

lemma smod_nonneg: "0 \<le> k \<Longrightarrow> 0 < l \<Longrightarrow> (k::int) smod l = k mod l"
  by (cases "k = 0") (simp_all add: signed_modulo_int_def)

lemma at_index_mod:
  assumes "0 \<le> k" "points \<noteq> []"
  shows "at_index points (k smod int (length points)) =
         Some (points ! (nat k mod length points))"
proof -
  let ?N = "int (length points)"
  have N: "0 < ?N" using assms by simp
  have "k smod ?N = k mod ?N" using assms N by (simp add: smod_nonneg)
  moreover have "0 \<le> k mod ?N" "k mod ?N < ?N" using N by simp_all
  moreover have "nat (k mod ?N) = nat k mod length points"
    using assms by (simp add: nat_mod_distrib)
  ultimately show ?thesis by (simp add: at_index_def)
qed

text \<open>The inner loop, when every index it computes is non-negative before the remainder.\<close>

lemma fold_window_step:
  assumes "points \<noteq> []" "\<forall>j\<in>set js. 0 \<le> i + j + int (length points)"
  shows "fold (window_step points i) js (a, b, c, n) =
          (a + (\<Sum>j\<leftarrow>js. x (points ! (nat (i + j + int (length points)) mod length points))),
           b + (\<Sum>j\<leftarrow>js. y (points ! (nat (i + j + int (length points)) mod length points))),
           c + (\<Sum>j\<leftarrow>js. z (points ! (nat (i + j + int (length points)) mod length points))),
           n + length js)"
  using assms(2)
proof (induction js arbitrary: a b c n)
  case Nil
  then show ?case by simp
next
  case (Cons j js)
  have "0 \<le> i + j + int (length points)" using Cons.prems by simp
  then have step: "window_step points i j (a, b, c, n) =
      (a + x (points ! (nat (i + j + int (length points)) mod length points)),
       b + y (points ! (nat (i + j + int (length points)) mod length points)),
       c + z (points ! (nat (i + j + int (length points)) mod length points)),
       n + 1)"
    using assms(1) by (simp add: window_step_def at_index_mod)
  show ?case using Cons by (simp add: step add.assoc)
qed

lemma upto_as_upt: "[a..b] = map (\<lambda>k. a + int k) [0..<nat (b - a + 1)]"
  by (rule nth_equalityI) (simp_all add: nth_upto)

lemma window_sums_eq:
  assumes "points \<noteq> []" "0 \<le> i" "0 \<le> h" "h \<le> int (length points)"
  shows "window_sums points h i =
          ((\<Sum>j\<leftarrow>[- h..h]. x (points ! (nat (i + j + int (length points)) mod length points))),
           (\<Sum>j\<leftarrow>[- h..h]. y (points ! (nat (i + j + int (length points)) mod length points))),
           (\<Sum>j\<leftarrow>[- h..h]. z (points ! (nat (i + j + int (length points)) mod length points))),
           nat (2 * h + 1))"
proof -
  have "\<forall>j\<in>set [- h..h]. 0 \<le> i + j + int (length points)" using assms by auto
  from fold_window_step[OF assms(1) this, of 0 0 0 0]
  show ?thesis by (simp add: window_sums_def)
qed

lemma window_average_eq:
  assumes "i < length points" "0 \<le> h" "h \<le> int (length points)"
  shows "window_average points h i =
     Some \<lparr>x = (\<Sum>j\<leftarrow>[- h..h]. x (points ! (nat (int i + j + int (length points)) mod length points))) / real (nat (2 * h + 1)),
           y = (\<Sum>j\<leftarrow>[- h..h]. y (points ! (nat (int i + j + int (length points)) mod length points))) / real (nat (2 * h + 1)),
           z = (\<Sum>j\<leftarrow>[- h..h]. z (points ! (nat (int i + j + int (length points)) mod length points))) / real (nat (2 * h + 1)),
           distance = distance (points ! i), sector = sector (points ! i)\<rparr>"
proof -
  have ne: "points \<noteq> []" using assms(1) by auto
  have c: "0 < nat (2 * h + 1)" using assms(2) by simp
  show ?thesis
    using assms c by (simp add: window_average_def window_sums_eq[OF ne] at_index_def)
qed

lemma fold_smooth_push:
  assumes "\<forall>i\<in>set is. window_average points h i = Some (f i)"
  shows "fold (smooth_push points h) is acc = acc @ map f is"
  using assms by (induction "is" arbitrary: acc) (simp_all add: smooth_push_def)

text \<open>With three points or more and a positive level, every iteration pushes a point.\<close>

lemma smoothPoints_eq:
  assumes "3 \<le> length points" "1 \<le> level"
  shows "smoothPoints points level =
     map (\<lambda>i. the (window_average points (min (level * 2 + 1) (int (length points)) div 2) i))
         [0..<length points]"
proof -
  let ?h = "min (level * 2 + 1) (int (length points)) div 2"
  have h: "0 \<le> ?h" "?h \<le> int (length points)" using assms by auto
  have "\<forall>i\<in>set [0..<length points].
          window_average points ?h i = Some (the (window_average points ?h i))"
    using window_average_eq[OF _ h] by simp
  from fold_smooth_push[OF this, of "[]"]
  have "fold (smooth_push points ?h) [0..<length points] [] =
        map (\<lambda>i. the (window_average points ?h i)) [0..<length points]" by simp
  then show ?thesis using assms by (simp add: smoothPoints_def Let_def)
qed

lemma window_reindex:
  assumes "0 \<le> h" "h \<le> int (length points)" "i < length points"
  shows "(\<Sum>j\<leftarrow>[- h..h]. f (points ! (nat (int i + j + int (length points)) mod length points))) =
         (\<Sum>k\<leftarrow>window_indices (length points) (nat (2 * h + 1)) i. f (points ! k))"
proof -
  have d: "nat (2 * h + 1) div 2 = nat h" using assms(1) by (simp add: nat_div_distrib)
  have "nat (int i + (- h + int k) + int (length points)) = i + length points - nat h + k" for k
    using assms by linarith
  then show ?thesis
    unfolding window_indices_def upto_as_upt[of "- h" h] d
    using assms(1) by (simp add: comp_def)
qed

text \<open>
  Where the window size \<open>min (2 * level + 1) n\<close> is odd, which is every case but an even
  \<open>n\<close> below \<open>2 * level + 1\<close>, the filter is the arithmetic mean over the centred
  circular window.
\<close>

lemma smoothPoints_window_mean_odd:
  assumes "3 \<le> length points" "1 \<le> level" "i < length points"
    and "odd (min (level * 2 + 1) (int (length points)))"
  shows "x (smoothPoints points level ! i) =
           window_mean x points (nat (min (level * 2 + 1) (int (length points)))) i \<and>
         y (smoothPoints points level ! i) =
           window_mean y points (nat (min (level * 2 + 1) (int (length points)))) i \<and>
         z (smoothPoints points level ! i) =
           window_mean z points (nat (min (level * 2 + 1) (int (length points)))) i"
proof -
  let ?w = "min (level * 2 + 1) (int (length points))"
  let ?h = "?w div 2"
  have h: "0 \<le> ?h" "?h \<le> int (length points)" using assms by auto
  have w: "2 * ?h + 1 = ?w" using assms(4) by presburger
  show ?thesis
    using assms(3)
    by (simp add: smoothPoints_eq[OF assms(1,2)] window_average_eq[OF _ h]
        window_reindex[OF h] window_mean_def w del: upto.simps)
qed

text \<open>
  Claim C1, at a ring of four points and level 2. The window size is \<open>min 5 4 = 4\<close>, the half
  window 2, and the loop visits the five offsets \<open>-2, ..., 2\<close>: the point opposite to \<open>i\<close> is
  added twice and the sum is divided by 5. At index 0 the code returns \<open>x = (5 + 0 + 0 + 0 + 5) / 5 = 2\<close>,
  where the arithmetic mean of \<open>x\<close> over the window of four points is \<open>5 / 4\<close>.
\<close>

theorem smoothPoints_even_window_double_count:
  "x (smoothPoints quad_track 2 ! 0) = 2 \<and>
   window_mean x quad_track (nat (min (2 * 2 + 1) (int (length quad_track)))) 0 = 5 / 4"
  by (simp add: smoothPoints_def smooth_push_def window_average_def window_sums_def window_step_def
      at_index_def quad_track_def upto.simps signed_modulo_int_def Let_def upt_rec
      window_mean_def window_indices_def)

text \<open>
  Claim C8: for a list of at least three points and a level of at least 1, smoothPoints
  returns as many points as it was given, and the point at each index carries the distance
  and the sector of the input point at that index; with level 0 or fewer than three points
  it returns its input.
\<close>

theorem smoothPoints_frame:
  "(3 \<le> length points \<and> 1 \<le> level \<longrightarrow>
      length (smoothPoints points level) = length points \<and>
      (\<forall>i<length points.
         distance (smoothPoints points level ! i) = distance (points ! i) \<and>
         sector (smoothPoints points level ! i) = sector (points ! i))) \<and>
   (level = 0 \<or> length points < 3 \<longrightarrow> smoothPoints points level = points)"
proof (intro conjI impI)
  assume a: "3 \<le> length points \<and> 1 \<le> level"
  let ?h = "min (level * 2 + 1) (int (length points)) div 2"
  have h: "0 \<le> ?h" "?h \<le> int (length points)" using a by auto
  have eq: "smoothPoints points level =
     map (\<lambda>i. the (window_average points ?h i)) [0..<length points]"
    using a by (simp add: smoothPoints_eq)
  show "length (smoothPoints points level) = length points" by (simp add: eq)
  show "\<forall>i<length points.
         distance (smoothPoints points level ! i) = distance (points ! i) \<and>
         sector (smoothPoints points level ! i) = sector (points ! i)"
    by (simp add: eq window_average_eq[OF _ h])
next
  assume "level = 0 \<or> length points < 3"
  then show "smoothPoints points level = points" by (auto simp: smoothPoints_def)
qed

theorem smoothPoints_frame_witness:
  "3 \<le> length quad_track \<and> (1::int) \<le> 2 \<and>
   length (smoothPoints quad_track 2) = length quad_track \<and>
   distance (smoothPoints quad_track 2 ! 2) = distance (quad_track ! 2) \<and>
   sector (smoothPoints quad_track 2 ! 2) = sector (quad_track ! 2) \<and>
   smoothPoints quad_track 0 = quad_track \<and>
   length (take 2 quad_track) < 3 \<and> smoothPoints (take 2 quad_track) 2 = take 2 quad_track"
  using smoothPoints_frame[of quad_track 2] smoothPoints_frame[of quad_track 0]
    smoothPoints_frame[of "take 2 quad_track" 2]
  by (simp add: quad_track_def)


section \<open>Properties of the editing operations\<close>


lemma map_throw_Inr:
  "map_throw f xs = Inr ys \<longleftrightarrow>
     length ys = length xs \<and> (\<forall>k<length xs. f (xs ! k) = Inr (ys ! k))"
proof (induction xs arbitrary: ys)
  case Nil
  then show ?case by auto
next
  case (Cons a as)
  show ?case
  proof (cases "f a")
    case (Inl e)
    then show ?thesis by (auto simp: nth_Cons split: nat.splits)
  next
    case (Inr b)
    note fa = this
    show ?thesis
    proof (cases "map_throw f as")
      case (Inl e)
      then have no: "\<And>bs. \<not> (length bs = length as \<and> (\<forall>k<length as. f (as ! k) = Inr (bs ! k)))"
        using Cons.IH by auto
      show ?thesis
      proof
        assume "map_throw f (a # as) = Inr ys"
        then show "length ys = length (a # as) \<and> (\<forall>k<length (a # as). f ((a # as) ! k) = Inr (ys ! k))"
          using fa Inl by simp
      next
        assume h: "length ys = length (a # as) \<and> (\<forall>k<length (a # as). f ((a # as) ! k) = Inr (ys ! k))"
        then obtain b' bs where ys: "ys = b' # bs" by (cases ys) auto
        from h ys have "length bs = length as \<and> (\<forall>k<length as. f (as ! k) = Inr (bs ! k))"
          by auto
        with no show "map_throw f (a # as) = Inr ys" by blast
      qed
    next
      case (Inr bs)
      then have bs: "length bs = length as" "\<forall>k<length as. f (as ! k) = Inr (bs ! k)"
        using Cons.IH by auto
      show ?thesis
      proof
        assume "map_throw f (a # as) = Inr ys"
        then have "ys = b # bs" using fa Inr by simp
        then show "length ys = length (a # as) \<and> (\<forall>k<length (a # as). f ((a # as) ! k) = Inr (ys ! k))"
          using fa bs by (auto simp: nth_Cons split: nat.splits)
      next
        assume h: "length ys = length (a # as) \<and> (\<forall>k<length (a # as). f ((a # as) ! k) = Inr (ys ! k))"
        then obtain b' bs' where ys: "ys = b' # bs'" by (cases ys) auto
        from h ys have b': "f a = Inr b'" by auto
        from h ys have "length bs' = length as \<and> (\<forall>k<length as. f (as ! k) = Inr (bs' ! k))"
          by auto
        then have "map_throw f as = Inr bs'" using Cons.IH by blast
        then show "map_throw f (a # as) = Inr ys" using b' ys by simp
      qed
    qed
  qed
qed

lemma map_throw_total:
  "(\<forall>a\<in>set xs. \<exists>b. f a = Inr b) \<Longrightarrow> \<exists>ys. map_throw f xs = Inr ys"
  by (induction xs) auto

lemma filter_index_shift:
  "map fst (filter (\<lambda>(a, j). j \<noteq> m) (zip xs [k..<k + length xs])) =
     (if m < k then xs else take (m - k) xs @ drop (Suc (m - k)) xs)"
proof (induction xs arbitrary: k)
  case Nil
  then show ?case by simp
next
  case (Cons a as)
  have zip_eq: "zip (a # as) [k..<Suc (k + length as)] = (a, k) # zip as [Suc k..<Suc (k + length as)]"
    by (simp add: upt_conv_Cons del: upt_Suc)
  consider "m < k" | "m = k" | "k < m" by linarith
  then show ?case
  proof cases
    case 1
    then show ?thesis using Cons.IH[of "Suc k"] by (simp add: zip_eq del: upt_Suc)
  next
    case 2
    then show ?thesis using Cons.IH[of "Suc k"] by (simp add: zip_eq del: upt_Suc)
  next
    case 3
    then obtain d where d: "m - k = Suc d" "m - Suc k = d" by (cases "m - k") auto
    show ?thesis using Cons.IH[of "Suc k"] 3 d by (simp add: zip_eq del: upt_Suc)
  qed
qed

lemma filter_index_remove:
  "filter_index (\<lambda>i. int i \<noteq> p) cps =
     (if 0 \<le> p then take (nat p) cps @ drop (Suc (nat p)) cps else cps)"
proof (cases "0 \<le> p")
  case True
  then have "(\<lambda>i. int i \<noteq> p) = (\<lambda>i. i \<noteq> nat p)" by auto
  then show ?thesis
    using filter_index_shift[of "nat p" cps 0] True by (simp add: filter_index_def)
next
  case False
  then have "(\<lambda>i. int i \<noteq> p) = (\<lambda>i. True)" by auto
  then show ?thesis using False by (simp add: filter_index_def)
qed

text \<open>
  Claim C9: addControlPoint keeps the number of routes, returns every route with another id
  as it is, and in a route with the given id replaces the control points by the old list
  (the empty list if the field is absent) followed by one point; nothing else of the route
  changes. Each coordinate of the point is the number parsed from the input string, and 0
  when the parse is NaN.
\<close>

theorem addControlPoint_appends:
  "length (addControlPoint parseFloat sx sy sz routeId routes) = length routes \<and>
   (\<forall>k<length routes.
      (route_id (routes ! k) \<noteq> routeId \<longrightarrow>
         addControlPoint parseFloat sx sy sz routeId routes ! k = routes ! k) \<and>
      (route_id (routes ! k) = routeId \<longrightarrow>
         addControlPoint parseFloat sx sy sz routeId routes ! k =
           (routes ! k)\<lparr>controlPoints :=
              Some ((case controlPoints (routes ! k) of None \<Rightarrow> [] | Some cps \<Rightarrow> cps) @
                    [(case parseFloat sx of None \<Rightarrow> 0 | Some r \<Rightarrow> r,
                      case parseFloat sy of None \<Rightarrow> 0 | Some r \<Rightarrow> r,
                      case parseFloat sz of None \<Rightarrow> 0 | Some r \<Rightarrow> r)])\<rparr>))"
proof -
  have z: "or_zero v = (case v of None \<Rightarrow> 0 | Some r \<Rightarrow> r)" for v
    by (simp add: or_zero_def split: option.splits)
  show ?thesis
    by (simp add: addControlPoint_def z Let_def split: option.splits)
qed

theorem addControlPoint_appends_witness:
  "length (addControlPoint sample_parseFloat ''1.5'' ''abc'' ''-2'' ''bypass-2'' example_routes) = 3 \<and>
   addControlPoint sample_parseFloat ''1.5'' ''abc'' ''-2'' ''bypass-2'' example_routes ! 0 =
     chicane_bypass_1 \<and>
   addControlPoint sample_parseFloat ''1.5'' ''abc'' ''-2'' ''bypass-2'' example_routes ! 1 =
     bypass_2\<lparr>controlPoints := Some [(21, 6, 27), (3 / 2, 0, - 2)]\<rparr> \<and>
   addControlPoint sample_parseFloat ''0'' ''0'' ''0'' ''chicane-bypass-1'' example_routes ! 0 =
     chicane_bypass_1\<lparr>controlPoints := Some [(0, 0, 0)]\<rparr>"
  using addControlPoint_appends[of sample_parseFloat "''1.5''" "''abc''" "''-2''" "''bypass-2''" example_routes]
    addControlPoint_appends[of sample_parseFloat "''0''" "''0''" "''0''" "''chicane-bypass-1''" example_routes]
  by (simp add: example_routes_def chicane_bypass_1_def bypass_2_def bypass_3_def
      sample_parseFloat_def nth_Cons' All_less_Suc)

lemma update_route_Inr:
  assumes "update_route routeId i c v r = Inr r'"
  shows "(route_id r \<noteq> routeId \<or> controlPoints r = None \<longrightarrow> r' = r) \<and>
         (route_id r = routeId \<longrightarrow> (\<forall>cps. controlPoints r = Some cps \<longrightarrow>
            0 \<le> i \<and> i < int (length cps) \<and>
            r' = r\<lparr>controlPoints := Some (cps[nat i := set_coordinate (cps ! nat i) c v])\<rparr>))"
  using assms
  by (auto simp: update_route_def at_index_def split: option.splits if_splits)

lemma set_coordinate_get:
  "get_coordinate (set_coordinate p c v) c' = (if c' = c then v else get_coordinate p c')"
  by (cases p; cases c; cases c') simp_all

lemma updateControlPoint_Inr:
  assumes r: "updateControlPoint routeId i c v routes = Inr routes'"
  shows "length routes' = length routes \<and>
      (\<forall>k<length routes.
         (route_id (routes ! k) \<noteq> routeId \<or> controlPoints (routes ! k) = None \<longrightarrow>
            routes' ! k = routes ! k) \<and>
         (route_id (routes ! k) = routeId \<longrightarrow>
            (\<forall>cps. controlPoints (routes ! k) = Some cps \<longrightarrow>
               0 \<le> i \<and> i < int (length cps) \<and>
               (\<exists>cps'. routes' ! k = (routes ! k)\<lparr>controlPoints := Some cps'\<rparr> \<and>
                  length cps' = length cps \<and>
                  (\<forall>j<length cps. j \<noteq> nat i \<longrightarrow> cps' ! j = cps ! j) \<and>
                  get_coordinate (cps' ! nat i) c = v \<and>
                  (\<forall>c'. c' \<noteq> c \<longrightarrow>
                     get_coordinate (cps' ! nat i) c' = get_coordinate (cps ! nat i) c')))))"
proof -
  from r have len: "length routes' = length routes"
    and each: "\<forall>k<length routes. update_route routeId i c v (routes ! k) = Inr (routes' ! k)"
    by (simp_all add: updateControlPoint_def map_throw_Inr)
  have "(route_id (routes ! k) \<noteq> routeId \<or> controlPoints (routes ! k) = None \<longrightarrow>
            routes' ! k = routes ! k) \<and>
         (route_id (routes ! k) = routeId \<longrightarrow>
            (\<forall>cps. controlPoints (routes ! k) = Some cps \<longrightarrow>
               0 \<le> i \<and> i < int (length cps) \<and>
               (\<exists>cps'. routes' ! k = (routes ! k)\<lparr>controlPoints := Some cps'\<rparr> \<and>
                  length cps' = length cps \<and>
                  (\<forall>j<length cps. j \<noteq> nat i \<longrightarrow> cps' ! j = cps ! j) \<and>
                  get_coordinate (cps' ! nat i) c = v \<and>
                  (\<forall>c'. c' \<noteq> c \<longrightarrow>
                     get_coordinate (cps' ! nat i) c' = get_coordinate (cps ! nat i) c'))))"
    if k: "k < length routes" for k
  proof -
    note u = update_route_Inr[OF each[rule_format, OF k]]
    have A: "route_id (routes ! k) \<noteq> routeId \<or> controlPoints (routes ! k) = None \<longrightarrow>
            routes' ! k = routes ! k"
      using u by blast
    have B: "0 \<le> i \<and> i < int (length cps) \<and>
               (\<exists>cps'. routes' ! k = (routes ! k)\<lparr>controlPoints := Some cps'\<rparr> \<and>
                  length cps' = length cps \<and>
                  (\<forall>j<length cps. j \<noteq> nat i \<longrightarrow> cps' ! j = cps ! j) \<and>
                  get_coordinate (cps' ! nat i) c = v \<and>
                  (\<forall>c'. c' \<noteq> c \<longrightarrow>
                     get_coordinate (cps' ! nat i) c' = get_coordinate (cps ! nat i) c'))"
      if a: "route_id (routes ! k) = routeId" "controlPoints (routes ! k) = Some cps" for cps
    proof -
      from u a have rng: "0 \<le> i" "i < int (length cps)"
        and eq: "routes' ! k =
          (routes ! k)\<lparr>controlPoints := Some (cps[nat i := set_coordinate (cps ! nat i) c v])\<rparr>"
        by blast+
      have n: "nat i < length cps" using rng by linarith
      have "\<exists>cps'. routes' ! k = (routes ! k)\<lparr>controlPoints := Some cps'\<rparr> \<and>
                  length cps' = length cps \<and>
                  (\<forall>j<length cps. j \<noteq> nat i \<longrightarrow> cps' ! j = cps ! j) \<and>
                  get_coordinate (cps' ! nat i) c = v \<and>
                  (\<forall>c'. c' \<noteq> c \<longrightarrow>
                     get_coordinate (cps' ! nat i) c' = get_coordinate (cps ! nat i) c')"
        by (rule exI[of _ "cps[nat i := set_coordinate (cps ! nat i) c v]"])
           (use eq n in \<open>simp add: set_coordinate_get\<close>)
      with rng show ?thesis by blast
    qed
    from A B show ?thesis by blast
  qed
  with len show ?thesis by blast
qed

lemma updateControlPoint_total:
  assumes a: "\<forall>r\<in>set routes. route_id r = routeId \<longrightarrow>
        (\<forall>cps. controlPoints r = Some cps \<longrightarrow> 0 \<le> i \<and> i < int (length cps))"
  shows "\<exists>routes'. updateControlPoint routeId i c v routes = Inr routes'"
proof -
  have "\<forall>r\<in>set routes. \<exists>b. update_route routeId i c v r = Inr b"
    using a by (auto simp: update_route_def at_index_def split: option.splits)
  then show ?thesis
    unfolding updateControlPoint_def by (rule map_throw_total)
qed

text \<open>
  Claim C6: when updateControlPoint returns new routes, there are as many as before; a route
  with another id or without control points is returned as it is; in a route with the given
  id and control points, \<open>pointIndex\<close> is an index of the list and only the control points
  change: the list keeps its length, every other point is as before, and the point at
  \<open>pointIndex\<close> has the given coordinate set to the value and its other two coordinates as
  before. It returns new routes whenever \<open>pointIndex\<close> is an index of the control points of
  every route with the given id.
\<close>

theorem updateControlPoint_frame:
  "(\<forall>routes'. updateControlPoint routeId i c v routes = Inr routes' \<longrightarrow>
      length routes' = length routes \<and>
      (\<forall>k<length routes.
         (route_id (routes ! k) \<noteq> routeId \<or> controlPoints (routes ! k) = None \<longrightarrow>
            routes' ! k = routes ! k) \<and>
         (route_id (routes ! k) = routeId \<longrightarrow>
            (\<forall>cps. controlPoints (routes ! k) = Some cps \<longrightarrow>
               0 \<le> i \<and> i < int (length cps) \<and>
               (\<exists>cps'. routes' ! k = (routes ! k)\<lparr>controlPoints := Some cps'\<rparr> \<and>
                  length cps' = length cps \<and>
                  (\<forall>j<length cps. j \<noteq> nat i \<longrightarrow> cps' ! j = cps ! j) \<and>
                  get_coordinate (cps' ! nat i) c = v \<and>
                  (\<forall>c'. c' \<noteq> c \<longrightarrow>
                     get_coordinate (cps' ! nat i) c' = get_coordinate (cps ! nat i) c')))))) \<and>
   ((\<forall>r\<in>set routes. route_id r = routeId \<longrightarrow>
        (\<forall>cps. controlPoints r = Some cps \<longrightarrow> 0 \<le> i \<and> i < int (length cps))) \<longrightarrow>
      (\<exists>routes'. updateControlPoint routeId i c v routes = Inr routes'))"
  by (rule conjI, (rule allI, rule impI, erule updateControlPoint_Inr),
      rule impI, erule updateControlPoint_total)

theorem updateControlPoint_frame_witness:
  "updateControlPoint ''bypass-3'' 1 C2 20 example_routes =
     Inr [chicane_bypass_1, bypass_2,
          bypass_3\<lparr>controlPoints :=
            Some [(-78, 9, 7), (-78, 9, 20), (-81, 9, 23), (-85, 9, 25), (-90, 9, 26)]\<rparr>]"
  using updateControlPoint_frame[of "''bypass-3''" 1 C2 20 example_routes]
  by (simp add: example_routes_def chicane_bypass_1_def bypass_2_def bypass_3_def
      updateControlPoint_def update_route_def at_index_def)

text \<open>Where a route with the given id has no control point at \<open>pointIndex\<close>, it throws.\<close>

lemma updateControlPoint_missing_point:
  "updateControlPoint ''bypass-2'' 5 C0 1 example_routes = Inl TypeError"
  by (simp add: example_routes_def chicane_bypass_1_def bypass_2_def bypass_3_def
      updateControlPoint_def update_route_def at_index_def)

text \<open>
  Claim C7: deleteControlPoint keeps the number of routes and returns every route with
  another id as it is. In a route with the given id and control points, the control points
  become the old list without its element at \<open>pointIndex\<close>, in the old order (the whole
  list when \<open>pointIndex\<close> is not an index of it), and the field becomes undefined when no
  point is left; nothing else of the route changes.
\<close>

theorem deleteControlPoint_removes:
  "length (deleteControlPoint routeId i routes) = length routes \<and>
   (\<forall>k<length routes.
      (route_id (routes ! k) \<noteq> routeId \<longrightarrow>
         deleteControlPoint routeId i routes ! k = routes ! k) \<and>
      (route_id (routes ! k) = routeId \<longrightarrow>
         (case controlPoints (routes ! k) of
            None \<Rightarrow> deleteControlPoint routeId i routes ! k = routes ! k
          | Some cps \<Rightarrow>
              (let rest = (if 0 \<le> i \<and> i < int (length cps)
                           then take (nat i) cps @ drop (Suc (nat i)) cps else cps)
               in deleteControlPoint routeId i routes ! k =
                    (routes ! k)\<lparr>controlPoints := (if rest = [] then None else Some rest)\<rparr>))))"
  by (auto simp: deleteControlPoint_def filter_index_remove Let_def split: option.splits)

theorem deleteControlPoint_removes_witness:
  "length (deleteControlPoint ''bypass-3'' 1 example_routes) = 3 \<and>
   deleteControlPoint ''bypass-3'' 1 example_routes ! 0 = chicane_bypass_1 \<and>
   deleteControlPoint ''bypass-3'' 1 example_routes ! 2 =
     bypass_3\<lparr>controlPoints := Some [(-78, 9, 7), (-81, 9, 23), (-85, 9, 25), (-90, 9, 26)]\<rparr> \<and>
   deleteControlPoint ''bypass-2'' 0 example_routes ! 1 = bypass_2\<lparr>controlPoints := None\<rparr> \<and>
   deleteControlPoint ''chicane-bypass-1'' 0 example_routes ! 0 = chicane_bypass_1"
  using deleteControlPoint_removes[of "''bypass-3''" 1 example_routes]
    deleteControlPoint_removes[of "''bypass-2''" 0 example_routes]
    deleteControlPoint_removes[of "''chicane-bypass-1''" 0 example_routes]
  by (simp add: example_routes_def chicane_bypass_1_def bypass_2_def bypass_3_def
      deleteControlPoint_def filter_index_def upt_rec)


section \<open>Properties of the path construction\<close>


lemma leading_straights_simps:
  "leading_straights [] = 0"
  "leading_straights (Straight # segs) = Suc (leading_straights segs)"
  "leading_straights (Curve # segs) = 0"
  by (simp_all add: leading_straights_def)

lemma leading_straights_le: "leading_straights segs \<le> length segs"
  by (simp add: leading_straights_def length_takeWhile_le)

lemma segment_loop_lines:
  "leading_straights segs = 0 \<or> c + leading_straights segs < length pts \<Longrightarrow>
   segment_loop pts segs c path =
     Inr (path @ map (\<lambda>j. LineCurve3 (pts ! j) (pts ! (j + 1))) [c..<c + leading_straights segs] @
          (if leading_straights segs < length segs
           then [CatmullRomCurve3 (drop (c + leading_straights segs) pts) False ''centripetal'' 0]
           else []))"
proof (induction segs arbitrary: c path)
  case Nil
  then show ?case by (simp add: leading_straights_simps)
next
  case (Cons s segs)
  show ?case
  proof (cases s)
    case Straight
    with Cons.prems have lt: "Suc (c + leading_straights segs) < length pts"
      by (simp add: leading_straights_simps)
    then have acc: "at_index pts (int c) = Some (pts ! c)"
      "at_index pts (int c + 1) = Some (pts ! (c + 1))"
      by (simp_all add: at_index_def nat_add_distrib)
    have pre: "leading_straights segs = 0 \<or> Suc c + leading_straights segs < length pts"
      using lt by simp
    have up: "[c..<Suc (c + leading_straights segs)] = c # [Suc c..<Suc (c + leading_straights segs)]"
      by (simp add: upt_conv_Cons del: upt_Suc)
    show ?thesis
      using Cons.IH[OF pre, of "path @ [LineCurve3 (pts ! c) (pts ! (c + 1))]"] acc
      by (simp add: Straight leading_straights_simps up del: upt_Suc)
  next
    case Curve
    then show ?thesis by (simp add: leading_straights_simps)
  qed
qed

text \<open>With more leading straight entries than that, a read fails.\<close>

lemma segment_loop_out_of_range:
  "0 < leading_straights segs \<Longrightarrow> length pts \<le> c + leading_straights segs \<Longrightarrow>
   segment_loop pts segs c path = Inl TypeError"
proof (induction segs arbitrary: c path)
  case Nil
  then show ?case by (simp add: leading_straights_simps)
next
  case (Cons s segs)
  show ?case
  proof (cases s)
    case Curve
    with Cons.prems show ?thesis by (simp add: leading_straights_simps)
  next
    case Straight
    show ?thesis
    proof (cases "Suc c < length pts")
      case False
      then have "at_index pts (int c) = None \<or> at_index pts (int c + 1) = None"
        by (auto simp: at_index_def)
      then show ?thesis by (auto simp: Straight split: option.splits)
    next
      case True
      then have acc: "at_index pts (int c) = Some (pts ! c)"
        "at_index pts (int c + 1) = Some (pts ! (c + 1))"
        by (simp_all add: at_index_def nat_add_distrib)
      from Cons.prems True Straight
      have "0 < leading_straights segs" "length pts \<le> Suc c + leading_straights segs"
        by (auto simp: leading_straights_simps intro: Suc_lessI)
      from Cons.IH[OF this] show ?thesis by (simp add: Straight acc)
    qed
  qed
qed

lemma segment_loop_after_curve:
  "segment_loop pts (replicate k Straight @ Curve # rest) c path =
   segment_loop pts (replicate k Straight @ [Curve]) c path"
  by (induction k arbitrary: c path) (simp_all split: option.splits)

lemma length_allPoints:
  "length (allPoints route) =
     length (case controlPoints route of None \<Rightarrow> [] | Some cps \<Rightarrow> cps) + 2"
  by (simp add: allPoints_def split: option.splits)

lemma allPoints_eq:
  "allPoints route =
     vector_of (startPoint route) #
     map vector_of (case controlPoints route of None \<Rightarrow> [] | Some cps \<Rightarrow> cps) @
     [vector_of (endPoint route)]"
  by (simp add: allPoints_def split: option.splits)

text \<open>
  Claim C2, with the bound on the straight entries that the loop needs: the points are the
  start point, the control points in order and the end point. For a route with a non-empty
  segments list whose straight entries before the first curve entry are at most the number
  of control points plus one, the path is one line from point \<open>j\<close> to point \<open>j + 1\<close>
  for each of these straight entries, followed, if there is a curve entry, by one
  Catmull-Rom curve through the points from the current one on. A route with no segments
  list, or an empty one, gets one Catmull-Rom curve through all its points. What follows
  the first curve entry does not change the result.
\<close>

theorem routePath_described:
  "allPoints route =
     vector_of (startPoint route) #
     map vector_of (case controlPoints route of None \<Rightarrow> [] | Some cps \<Rightarrow> cps) @
     [vector_of (endPoint route)] \<and>
   (\<forall>segs. segments route = Some segs \<and> segs \<noteq> [] \<and>
       leading_straights segs \<le>
         length (case controlPoints route of None \<Rightarrow> [] | Some cps \<Rightarrow> cps) + 1 \<longrightarrow>
       routePath route = Inr (described_path (allPoints route) segs)) \<and>
   (segments route = None \<or> segments route = Some [] \<longrightarrow>
       routePath route = Inr [CatmullRomCurve3 (allPoints route) False ''centripetal'' (1 / 2)]) \<and>
   routePath (route\<lparr>segments := Some (replicate k Straight @ Curve # rest)\<rparr>) =
     routePath (route\<lparr>segments := Some (replicate k Straight @ [Curve])\<rparr>)"
proof (intro conjI)
  show "allPoints route =
     vector_of (startPoint route) #
     map vector_of (case controlPoints route of None \<Rightarrow> [] | Some cps \<Rightarrow> cps) @
     [vector_of (endPoint route)]"
    by (rule allPoints_eq)
  show "\<forall>segs. segments route = Some segs \<and> segs \<noteq> [] \<and>
       leading_straights segs \<le>
         length (case controlPoints route of None \<Rightarrow> [] | Some cps \<Rightarrow> cps) + 1 \<longrightarrow>
       routePath route = Inr (described_path (allPoints route) segs)"
  proof (intro allI impI)
    fix segs
    assume a: "segments route = Some segs \<and> segs \<noteq> [] \<and>
       leading_straights segs \<le>
         length (case controlPoints route of None \<Rightarrow> [] | Some cps \<Rightarrow> cps) + 1"
    then have "leading_straights segs = 0 \<or> 0 + leading_straights segs < length (allPoints route)"
      by (simp add: length_allPoints)
    from segment_loop_lines[OF this, of "[]"] a
    show "routePath route = Inr (described_path (allPoints route) segs)"
      by (simp add: routePath_def described_path_def)
  qed
  show "segments route = None \<or> segments route = Some [] \<longrightarrow>
       routePath route = Inr [CatmullRomCurve3 (allPoints route) False ''centripetal'' (1 / 2)]"
    by (auto simp: routePath_def)
  have ap: "allPoints (route\<lparr>segments := s\<rparr>) = allPoints route" for s
    by (simp add: allPoints_def)
  show "routePath (route\<lparr>segments := Some (replicate k Straight @ Curve # rest)\<rparr>) =
     routePath (route\<lparr>segments := Some (replicate k Straight @ [Curve])\<rparr>)"
    by (simp add: routePath_def ap segment_loop_after_curve[of _ k rest])
qed

theorem routePath_described_witness:
  "segments bypass_3 = Some [Straight, Straight, Curve, Curve, Curve, Curve] \<and>
   leading_straights [Straight, Straight, Curve, Curve, Curve, Curve] \<le> 5 + 1 \<and>
   routePath bypass_3 =
     Inr [LineCurve3 (Vector3 (- 93) 9 (- 25)) (Vector3 (- 78) 9 7),
          LineCurve3 (Vector3 (- 78) 9 7) (Vector3 (- 78) 9 19),
          CatmullRomCurve3
            [Vector3 (- 78) 9 19, Vector3 (- 81) 9 23, Vector3 (- 85) 9 25,
             Vector3 (- 90) 9 26, Vector3 (- 93) 9 26]
            False ''centripetal'' 0] \<and>
   routePath chicane_bypass_1 =
     Inr [CatmullRomCurve3 [Vector3 83 4 89, Vector3 120 6 51] False ''centripetal'' (1 / 2)]"
  using routePath_described[of bypass_3 0 "[]"] routePath_described[of chicane_bypass_1 0 "[]"]
  by (simp add: bypass_3_def chicane_bypass_1_def described_path_def leading_straights_def
      allPoints_def vector_of_def)

text \<open>
  Claim C2 as it is stated, for every route with a non-empty segments list, fails at a route
  of two points and two straight entries: the second entry reads a point that does not
  exist, and no path is built.
\<close>

theorem routePath_two_straights_throws:
  "segments two_straights_route = Some [Straight, Straight] \<and>
   routePath two_straights_route = Inl TypeError \<and>
   routePath two_straights_route \<noteq>
     Inr (described_path (allPoints two_straights_route) [Straight, Straight])"
  by (simp add: two_straights_route_def routePath_def allPoints_def at_index_def)

text \<open>
  Claim C10: when the straight entries before the first curve entry are at most the number
  of control points plus one, the construction returns a path, and the two points that the
  \<open>j\<close>-th of these entries reads, at \<open>currentIndex = j\<close> and \<open>j + 1\<close>, exist.
\<close>

theorem segment_accesses_in_range:
  assumes "segments route = Some segs"
    and "leading_straights segs \<le>
           length (case controlPoints route of None \<Rightarrow> [] | Some cps \<Rightarrow> cps) + 1"
  shows "(\<exists>path. routePath route = Inr path) \<and>
         (\<forall>j<leading_straights segs.
            at_index (allPoints route) (int j) \<noteq> None \<and>
            at_index (allPoints route) (int j + 1) \<noteq> None)"
proof
  have "leading_straights segs = 0 \<or> 0 + leading_straights segs < length (allPoints route)"
    using assms(2) by (simp add: length_allPoints)
  from segment_loop_lines[OF this, of "[]"] assms(1)
  show "\<exists>path. routePath route = Inr path"
    by (cases "segs = []") (simp_all add: routePath_def)
  show "\<forall>j<leading_straights segs.
            at_index (allPoints route) (int j) \<noteq> None \<and>
            at_index (allPoints route) (int j + 1) \<noteq> None"
    using assms(2) by (auto simp: at_index_def length_allPoints)
qed

theorem segment_accesses_in_range_witness:
  "segments bypass_3 = Some [Straight, Straight, Curve, Curve, Curve, Curve] \<and>
   leading_straights [Straight, Straight, Curve, Curve, Curve, Curve] \<le> 5 + 1 \<and>
   (\<exists>path. routePath bypass_3 = Inr path) \<and>
   at_index (allPoints bypass_3) 2 \<noteq> None"
  using segment_accesses_in_range[of bypass_3 "[Straight, Straight, Curve, Curve, Curve, Curve]"]
  by (simp add: bypass_3_def leading_straights_def allPoints_def at_index_def)


section \<open>Properties of the ribbon\<close>


lemma normalize3_nonzero:
  assumes "length3 a \<noteq> 0"
  shows "normalize3 a = Vector3 (vx a / length3 a) (vy a / length3 a) (vz a / length3 a)"
  using assms by (simp add: normalize3_def divideScalar_def multiplyScalar_def)

lemma ribbon_pair_horizontal:
  assumes h: "vx q \<noteq> vx p \<or> vz q \<noteq> vz p"
    and H: "H = sqrt ((vx q - vx p)\<^sup>2 + (vz q - vz p)\<^sup>2)"
  shows "ribbon_pair hw p q =
           (Vector3 (vx p + (- (vz q - vz p) / H) * hw) (vy p) (vz p + ((vx q - vx p) / H) * hw),
            Vector3 (vx p - (- (vz q - vz p) / H) * hw) (vy p) (vz p - ((vx q - vx p) / H) * hw))"
proof -
  define dx where "dx = vx q - vx p"
  define dy where "dy = vy q - vy p"
  define dz where "dz = vz q - vz p"
  define L where "L = sqrt (dx * dx + dy * dy + dz * dz)"
  have Heq: "H = sqrt (dx\<^sup>2 + dz\<^sup>2)" by (simp add: H dx_def dz_def)
  have sq: "0 < dx\<^sup>2 + dz\<^sup>2"
    using h by (auto simp: dx_def dz_def sum_power2_gt_zero_iff)
  then have Hpos: "0 < H" by (simp add: Heq)
  have "dx\<^sup>2 + dz\<^sup>2 \<le> dx * dx + dy * dy + dz * dz" by (simp add: power2_eq_square)
  then have "H \<le> L" unfolding Heq L_def by (rule real_sqrt_le_mono)
  with Hpos have Lpos: "0 < L" by linarith
  have sub: "subVectors q p = Vector3 dx dy dz"
    by (simp add: subVectors_def dx_def dy_def dz_def)
  have lenL: "length3 (Vector3 dx dy dz) = L" by (simp add: length3_def L_def)
  have dir: "normalize3 (subVectors q p) = Vector3 (dx / L) (dy / L) (dz / L)"
    using Lpos by (simp add: sub normalize3_nonzero lenL)
  have "(dz / L) * (dz / L) + (dx / L) * (dx / L) = (dx\<^sup>2 + dz\<^sup>2) / L\<^sup>2"
    by (simp add: power2_eq_square add_divide_distrib)
  then have lenP: "length3 (Vector3 (- (dz / L)) 0 (dx / L)) = H / L"
    using Lpos by (simp add: length3_def Heq real_sqrt_divide)
  have nz: "H / L \<noteq> 0" using Hpos Lpos by simp
  have perp: "normalize3 (Vector3 (- (dz / L)) 0 (dx / L)) = Vector3 (- dz / H) 0 (dx / H)"
    using nz Hpos Lpos by (simp add: normalize3_nonzero lenP)
  have "ribbon_pair hw p q =
           (Vector3 (vx p + (- dz / H) * hw) (vy p) (vz p + (dx / H) * hw),
            Vector3 (vx p - (- dz / H) * hw) (vy p) (vz p - (dx / H) * hw))"
    by (simp add: ribbon_pair_def dir perp Let_def addVectors_def multiplyScalar_def)
  then show ?thesis by (simp add: dx_def dz_def)
qed

lemma ribbon_unit:
  assumes h: "a \<noteq> 0 \<or> b \<noteq> (0::real)"
  shows "(- b / sqrt (a\<^sup>2 + b\<^sup>2))\<^sup>2 + (a / sqrt (a\<^sup>2 + b\<^sup>2))\<^sup>2 = 1"
proof -
  define s where "s = sqrt (a\<^sup>2 + b\<^sup>2)"
  have sq: "0 < a\<^sup>2 + b\<^sup>2" using h by (auto simp: sum_power2_gt_zero_iff)
  then have s2: "s\<^sup>2 = a\<^sup>2 + b\<^sup>2" by (simp add: s_def)
  have "(- b / s)\<^sup>2 + (a / s)\<^sup>2 = (b\<^sup>2 + a\<^sup>2) / s\<^sup>2"
    by (simp add: power_divide add_divide_distrib)
  also have "\<dots> = 1" using s2 h by (auto simp: add.commute)
  finally show ?thesis by (simp add: s_def)
qed

lemma fold_push_pair:
  "fold (\<lambda>i vertices. push_pair (g i) vertices) is acc =
     acc @ concat (map (\<lambda>i. [vx (fst (g i)), vy (fst (g i)), vz (fst (g i)),
                              vx (snd (g i)), vy (snd (g i)), vz (snd (g i))]) is)"
  by (induction "is" arbitrary: acc) (simp_all add: push_pair_def split: prod.splits)

lemma concat_blocks:
  assumes "\<forall>a\<in>set as. length (f a) = n" "i < length as"
  shows "take n (drop (n * i) (concat (map f as))) = f (as ! i)"
  using assms
proof (induction as arbitrary: i)
  case Nil
  then show ?case by simp
next
  case (Cons a as)
  show ?case
  proof (cases i)
    case 0
    then show ?thesis using Cons.prems by simp
  next
    case (Suc k)
    then have "take n (drop (n * k) (concat (map f as))) = f (as ! k)"
      using Cons by simp
    moreover have "length (f a) = n" using Cons.prems by simp
    ultimately show ?thesis using Suc by (simp add: add.commute)
  qed
qed

lemma length_concat_blocks:
  "\<forall>a\<in>set as. length (f a) = n \<Longrightarrow> length (concat (map f as)) = n * length as"
  by (induction as) simp_all

lemma trackRibbonVertices_eq:
  "trackRibbonVertices w pts =
     concat (map (\<lambda>i. [vx (fst (ribbon_pair (w * (1 / 2)) (pts ! i) (pts ! ((i + 1) mod length pts)))),
                       vy (fst (ribbon_pair (w * (1 / 2)) (pts ! i) (pts ! ((i + 1) mod length pts)))),
                       vz (fst (ribbon_pair (w * (1 / 2)) (pts ! i) (pts ! ((i + 1) mod length pts)))),
                       vx (snd (ribbon_pair (w * (1 / 2)) (pts ! i) (pts ! ((i + 1) mod length pts)))),
                       vy (snd (ribbon_pair (w * (1 / 2)) (pts ! i) (pts ! ((i + 1) mod length pts)))),
                       vz (snd (ribbon_pair (w * (1 / 2)) (pts ! i) (pts ! ((i + 1) mod length pts))))])
             [0..<length pts])"
  unfolding trackRibbonVertices_def Let_def
  using fold_push_pair[of "\<lambda>i. ribbon_pair (w * (1 / 2)) (pts ! i) (pts ! ((i + 1) mod length pts))"
      "[0..<length pts]" "[]"]
  by simp

lemma routeRibbonVertices_eq: "routeRibbonVertices w pts = trackRibbonVertices w pts"
proof -
  have "min ((i + 1) mod length pts) (length pts - 1) = (i + 1) mod length pts"
    if "i < length pts" for i
  proof -
    have "0 < length pts" using that by linarith
    then have "(i + 1) mod length pts < length pts" by (rule mod_less_divisor)
    then show ?thesis by simp
  qed
  then have "fold (\<lambda>i ribbonVertices.
              push_pair (ribbon_pair (w * (1 / 2)) (pts ! i)
                 (pts ! (min ((i + 1) mod length pts) (length pts - 1)))) ribbonVertices)
           [0..<length pts] [] =
        fold (\<lambda>i vertices.
              push_pair (ribbon_pair (w * (1 / 2)) (pts ! i)
                 (pts ! ((i + 1) mod length pts))) vertices)
           [0..<length pts] []"
    by (intro fold_cong) auto
  then show ?thesis
    by (simp add: routeRibbonVertices_def trackRibbonVertices_def Let_def)
qed

text \<open>
  Claim C5, for a successor at another horizontal position: the ribbon of TrackMesh and the
  ribbon of AlternateRouteTrack hold the same six numbers per sampled point, the two
  vertices \<open>point + (w / 2) u\<close> and \<open>point - (w / 2) u\<close>, where \<open>u\<close> is the horizontal
  unit vector along \<open>(- d.z, 0, d.x)\<close> for the direction \<open>d\<close> to the next sampled point (the
  first point, after the last). \<open>u\<close> is perpendicular to \<open>d\<close>; both vertices have the
  height of the point, they are \<open>\<bar>w\<bar>\<close> apart, and the point is midway between them.
\<close>

theorem ribbon_cross_section:
  assumes "i < length curvePoints"
    and "point = curvePoints ! i"
    and "nextPoint = curvePoints ! ((i + 1) mod length curvePoints)"
    and "vx nextPoint \<noteq> vx point \<or> vz nextPoint \<noteq> vz point"
    and "H = sqrt ((vx nextPoint - vx point)\<^sup>2 + (vz nextPoint - vz point)\<^sup>2)"
    and "u = Vector3 (- (vz nextPoint - vz point) / H) 0 ((vx nextPoint - vx point) / H)"
    and "leftPoint = addVectors point (multiplyScalar u (w / 2))"
    and "rightPoint = addVectors point (multiplyScalar u (- (w / 2)))"
  shows "length (trackRibbonVertices w curvePoints) = 6 * length curvePoints \<and>
         take 6 (drop (6 * i) (trackRibbonVertices w curvePoints)) =
           [vx leftPoint, vy leftPoint, vz leftPoint, vx rightPoint, vy rightPoint, vz rightPoint] \<and>
         routeRibbonVertices w curvePoints = trackRibbonVertices w curvePoints \<and>
         length3 u = 1 \<and>
         vx u * (vx nextPoint - vx point) + vy u * (vy nextPoint - vy point) +
           vz u * (vz nextPoint - vz point) = 0 \<and>
         vy leftPoint = vy point \<and> vy rightPoint = vy point \<and>
         length3 (subVectors leftPoint rightPoint) = \<bar>w\<bar> \<and>
         multiplyScalar (addVectors leftPoint rightPoint) (1 / 2) = point"
proof -
  let ?g = "\<lambda>i. ribbon_pair (w * (1 / 2)) (curvePoints ! i)
                  (curvePoints ! ((i + 1) mod length curvePoints))"
  let ?f = "\<lambda>i. [vx (fst (?g i)), vy (fst (?g i)), vz (fst (?g i)),
                  vx (snd (?g i)), vy (snd (?g i)), vz (snd (?g i))]"
  have six: "\<forall>k\<in>set [0..<length curvePoints]. length (?f k) = 6" by simp
  have len: "length (trackRibbonVertices w curvePoints) = 6 * length curvePoints"
    unfolding trackRibbonVertices_eq using length_concat_blocks[OF six] by simp
  have "take 6 (drop (6 * i) (trackRibbonVertices w curvePoints)) = ?f ([0..<length curvePoints] ! i)"
    unfolding trackRibbonVertices_eq using assms(1) by (intro concat_blocks[OF six]) simp
  then have blk: "take 6 (drop (6 * i) (trackRibbonVertices w curvePoints)) = ?f i"
    using assms(1) by simp
  have pair: "?g i = (leftPoint, rightPoint)"
    using ribbon_pair_horizontal[OF assms(4,5), of "w * (1 / 2)"]
    by (simp add: assms(2,3,6,7,8) addVectors_def multiplyScalar_def)
  have unit: "length3 u = 1"
    using ribbon_unit[of "vx nextPoint - vx point" "vz nextPoint - vz point"] assms(4)
    by (simp add: assms(5,6) length3_def power2_eq_square)
  have width: "length3 (subVectors leftPoint rightPoint) = \<bar>w\<bar>"
  proof -
    have "subVectors leftPoint rightPoint = multiplyScalar u w"
      by (cases u) (simp add: assms(7,8) subVectors_def addVectors_def multiplyScalar_def)
    moreover have "length3 (multiplyScalar u w) = \<bar>w\<bar> * length3 u"
    proof -
      have "vx u * w * (vx u * w) + vy u * w * (vy u * w) + vz u * w * (vz u * w) =
            w\<^sup>2 * (vx u * vx u + vy u * vy u + vz u * vz u)"
        by (simp add: power2_eq_square algebra_simps)
      then show ?thesis
        by (simp add: length3_def multiplyScalar_def real_sqrt_mult)
    qed
    ultimately show ?thesis by (simp add: unit)
  qed
  have perp: "vx u * (vx nextPoint - vx point) + vy u * (vy nextPoint - vy point) +
           vz u * (vz nextPoint - vz point) = 0"
    by (simp add: assms(6) divide_inverse algebra_simps)
  have mid: "multiplyScalar (addVectors leftPoint rightPoint) (1 / 2) = point"
    by (cases point; cases u) (simp add: assms(7,8) addVectors_def multiplyScalar_def)
  have ys: "vy leftPoint = vy point" "vy rightPoint = vy point"
    by (simp_all add: assms(6,7,8) addVectors_def multiplyScalar_def)
  have blk': "take 6 (drop (6 * i) (trackRibbonVertices w curvePoints)) =
           [vx leftPoint, vy leftPoint, vz leftPoint, vx rightPoint, vy rightPoint, vz rightPoint]"
    by (simp only: blk pair fst_conv snd_conv)
  show ?thesis
    by (intro conjI) (fact len blk' routeRibbonVertices_eq unit perp ys width mid)+
qed

theorem ribbon_cross_section_witness:
  "(0::nat) < length climb_points \<and>
   vx (climb_points ! 1) \<noteq> vx (climb_points ! 0) \<and>
   length (trackRibbonVertices 2 climb_points) = 12 \<and>
   take 6 (drop (6 * 0) (trackRibbonVertices 2 climb_points)) = [0, 0, 1, 0, 0, - 1] \<and>
   routeRibbonVertices 2 climb_points = trackRibbonVertices 2 climb_points"
proof -
  have i: "0 < length climb_points" by (simp add: climb_points_def)
  have nx: "climb_points ! ((0 + 1) mod length climb_points) = Vector3 1 5 0"
    and pt: "climb_points ! 0 = Vector3 0 0 0"
    by (simp_all add: climb_points_def)
  have h: "vx (climb_points ! ((0 + 1) mod length climb_points)) \<noteq> vx (climb_points ! 0) \<or>
           vz (climb_points ! ((0 + 1) mod length climb_points)) \<noteq> vz (climb_points ! 0)"
    unfolding nx pt by simp
  note t = ribbon_cross_section[OF i refl refl h refl refl refl refl, of 2]
  have l: "length climb_points = 2" by (simp add: climb_points_def)
  from t show ?thesis
    unfolding nx pt l by (simp add: addVectors_def multiplyScalar_def climb_points_def)
qed

text \<open>
  Claim C5 as it is stated, for every distinct successor, fails where the successor lies
  straight above the point: the direction has no horizontal part, \<open>(- d.z, 0, d.x)\<close> is the
  zero vector, which normalising leaves as it is, and both vertices are the point itself,
  at width 0.
\<close>

theorem ribbon_vertical_successor_collapses:
  "vertical_points ! ((0 + 1) mod length vertical_points) \<noteq> vertical_points ! 0 \<and>
   take 6 (drop (6 * 0) (trackRibbonVertices 2 vertical_points)) = [0, 0, 0, 0, 0, 0] \<and>
   take 6 (drop (6 * 0) (routeRibbonVertices 2 vertical_points)) = [0, 0, 0, 0, 0, 0]"
  by (simp add: vertical_points_def trackRibbonVertices_def routeRibbonVertices_def
      push_pair_def ribbon_pair_def normalize3_def divideScalar_def multiplyScalar_def
      addVectors_def subVectors_def length3_def Let_def)


section \<open>Properties of the elevation scaling and of the nearest point\<close>


lemma Math_min_Min: "vs \<noteq> [] \<Longrightarrow> Math_min vs = Some (Min (set vs))"
proof (cases vs)
  case Nil
  assume "vs \<noteq> []"
  with Nil show ?thesis by simp
next
  case (Cons v ws)
  have "Min (set (v # ws)) = fold min ws v" by (rule Min.set_eq_fold)
  then show ?thesis by (simp only: Cons Math_min.simps)
qed

lemma length_processedPoints: "length (processedPoints ps L) = length ps"
proof (cases "0 < L \<and> 3 \<le> length ps")
  case True
  then show ?thesis by (simp add: processedPoints_def smoothPoints_eq)
next
  case False
  then show ?thesis by (auto simp: processedPoints_def smoothPoints_def)
qed

lemma elevated_points_eq:
  assumes "processed \<noteq> []"
  shows "elevated_points m g processed =
           map (\<lambda>p. Vector3 (x p) (y p * m - (Min (set (map y processed)) * m - g)) (z p)) processed"
  using assms by (simp add: elevated_points_def Math_min_Min Let_def)

lemma Min_elevated:
  assumes "processed \<noteq> []" "0 \<le> m"
  shows "Min (set (map (\<lambda>p. y p * m - (Min (set (map y processed)) * m - g)) processed)) = g"
proof (rule Min_eqI)
  let ?minY = "Min (set (map y processed))"
  show "finite (set (map (\<lambda>p. y p * m - (?minY * m - g)) processed))" by simp
  show "g \<le> v" if "v \<in> set (map (\<lambda>p. y p * m - (?minY * m - g)) processed)" for v
  proof -
    from that obtain p where p: "p \<in> set processed" "v = y p * m - (?minY * m - g)" by auto
    have "?minY \<le> y p" using p(1) by (intro Min_le) auto
    then have "?minY * m \<le> y p * m" using assms(2) by (rule mult_right_mono)
    then show ?thesis using p(2) by simp
  qed
  have "?minY \<in> set (map y processed)" using assms(1) by (intro Min_in) auto
  then obtain p where "p \<in> set processed" "y p = ?minY" by auto
  then show "g \<in> set (map (\<lambda>p. y p * m - (?minY * m - g)) processed)"
    by (auto simp: image_iff intro!: bexI[of _ p])
qed

text \<open>
  Claim C4, with the sign of the multiplier that its last part needs: with at least two
  valid points, the curve of TrackMesh is the closed curve through the processed points
  mapped to \<open>(x, y * m - (minY * m - g), z)\<close>, where \<open>minY\<close> is the least \<open>y\<close> of the
  processed points; \<open>x\<close> and \<open>z\<close> are as they were, and for \<open>m \<ge> 0\<close> the least
  transformed \<open>y\<close> is \<open>g\<close>.
\<close>

theorem TrackMesh_elevation:
  assumes "2 \<le> length (validPoints trackData)"
    and "processed = processedPoints (validPoints trackData) L"
    and "minY = Min (set (map y processed))"
  shows "TrackMesh_curve trackData m L g =
           CatmullRomCurve3
             (map (\<lambda>p. Vector3 (x p) (y p * m - (minY * m - g)) (z p)) processed)
             True ''centripetal'' (1 / 2) \<and>
         (0 \<le> m \<longrightarrow>
            Min (set (map (\<lambda>p. y p * m - (minY * m - g)) processed)) = g)"
proof -
  have ne: "processed \<noteq> []"
    using assms(1) length_processedPoints[of "validPoints trackData" L]
    by (auto simp: assms(2))
  show ?thesis
    using assms(1) Min_elevated[OF ne, of m g] elevated_points_eq[OF ne, of m g]
    by (simp add: TrackMesh_curve_def assms(2)[symmetric] assms(3))
qed

theorem TrackMesh_elevation_witness:
  "2 \<le> length (validPoints hill_track) \<and>
   TrackMesh_curve hill_track 2 0 3 =
     CatmullRomCurve3 [Vector3 0 3 0, Vector3 3 5 0, Vector3 3 9 4] True ''centripetal'' (1 / 2) \<and>
   Min (set (map vy [Vector3 0 3 0, Vector3 3 5 0, Vector3 3 9 4])) = 3"
  using TrackMesh_elevation[of hill_track hill_track 0 1 2 3]
  by (simp add: hill_track_def validPoints_def isNaN_def processedPoints_def)

text \<open>
  Claim C4 as it is stated, for every multiplier, fails at \<open>m = - 1\<close>: with heights 1, 2
  and 4 and ground offset 3 the transformed heights are 3, 2 and 0, and the least is 0.
\<close>

theorem TrackMesh_negative_multiplier:
  "2 \<le> length (validPoints hill_track) \<and>
   TrackMesh_curve hill_track (- 1) 0 3 =
     CatmullRomCurve3 [Vector3 0 3 0, Vector3 3 2 0, Vector3 3 0 4] True ''centripetal'' (1 / 2) \<and>
   Min (set (map vy [Vector3 0 3 0, Vector3 3 2 0, Vector3 3 0 4])) = 0"
  by (simp add: hill_track_def validPoints_def isNaN_def processedPoints_def TrackMesh_curve_def
      elevated_points_def)

lemma closest_fold_invariant:
  assumes "fold (closest_step position m yo) (zip qs [0..<length qs]) (0, None) = (k, md)"
  shows "(qs = [] \<and> k = 0 \<and> md = None) \<or>
         (qs \<noteq> [] \<and> k < length qs \<and>
          md = Some (adjusted_distance position m yo (qs ! k)) \<and>
          (\<forall>j<length qs. adjusted_distance position m yo (qs ! k) \<le>
                           adjusted_distance position m yo (qs ! j)) \<and>
          (\<forall>j<k. adjusted_distance position m yo (qs ! k) <
                    adjusted_distance position m yo (qs ! j)))"
  using assms
proof (induction qs arbitrary: k md rule: rev_induct)
  case Nil
  then show ?case by simp
next
  case (snoc q qs)
  let ?f = "adjusted_distance position m yo"
  obtain k' md' where prev:
    "fold (closest_step position m yo) (zip qs [0..<length qs]) (0, None) = (k', md')"
    by (cases "fold (closest_step position m yo) (zip qs [0..<length qs]) (0, None)")
  have step: "closest_step position m yo (q, length qs) (k', md') = (k, md)"
    using snoc.prems prev by simp
  from snoc.IH[OF prev] show ?case
  proof
    assume "qs = [] \<and> k' = 0 \<and> md' = None"
    then show ?thesis using step by (auto simp: closest_step_def)
  next
    assume inv: "qs \<noteq> [] \<and> k' < length qs \<and> md' = Some (?f (qs ! k')) \<and>
          (\<forall>j<length qs. ?f (qs ! k') \<le> ?f (qs ! j)) \<and>
          (\<forall>j<k'. ?f (qs ! k') < ?f (qs ! j))"
    show ?thesis
    proof (cases "?f q < ?f (qs ! k')")
      case True
      then have km: "k = length qs" "md = Some (?f q)"
        using step inv by (auto simp: closest_step_def)
      have "\<forall>j<length qs. ?f q < ?f (qs ! j)"
        using True inv by (meson less_le_trans)
      then show ?thesis
        using km by (auto simp: nth_append less_Suc_eq less_imp_le)
    next
      case False
      then have km: "k = k'" "md = md'"
        using step inv by (auto simp: closest_step_def)
      show ?thesis
        using km inv False by (auto simp: nth_append less_Suc_eq)
    qed
  qed
qed

text \<open>
  Claim C3: for a non-empty list of processed points, the index that the search of
  StartFinishLine selects is an index of the list; the distance from the position to the
  elevation-adjusted point \<open>(x, y * m - yOffset, z)\<close> at that index is at most the distance
  at every index, and every index at the same distance is at least the selected one. The
  distance is the Euclidean one.
\<close>

theorem closestIndex_nearest:
  assumes "processed = processedPoints trackData L"
    and "processed \<noteq> []"
    and "yOffset = Min (set (map y processed)) * m - g"
    and "k = StartFinishLine_closestIndex position trackData m L g"
  shows "k < length processed \<and>
         (\<forall>j<length processed.
            adjusted_distance position m yOffset (processed ! k) \<le>
            adjusted_distance position m yOffset (processed ! j)) \<and>
         (\<forall>j<length processed.
            adjusted_distance position m yOffset (processed ! j) =
            adjusted_distance position m yOffset (processed ! k) \<longrightarrow> k \<le> j) \<and>
         (\<forall>p. adjusted_distance position m yOffset p =
            length3 (subVectors (Vector3 (x p) (y p * m - yOffset) (z p)) (vector_of position)))"
proof -
  obtain k' md where f:
    "fold (closest_step position m yOffset) (zip processed [0..<length processed]) (0, None) = (k', md)"
    by (cases "fold (closest_step position m yOffset) (zip processed [0..<length processed]) (0, None)")
  have "k = k'"
    using assms(2) f
    by (simp add: assms(4) StartFinishLine_closestIndex_def closestIndex_def Math_min_Min
        assms(1)[symmetric] assms(3) Let_def)
  with closest_fold_invariant[OF f] assms(2)
  have inv: "k < length processed"
    "\<forall>j<length processed. adjusted_distance position m yOffset (processed ! k) \<le>
                           adjusted_distance position m yOffset (processed ! j)"
    "\<forall>j<k. adjusted_distance position m yOffset (processed ! k) <
                    adjusted_distance position m yOffset (processed ! j)"
    by auto
  have ties: "\<forall>j<length processed.
            adjusted_distance position m yOffset (processed ! j) =
            adjusted_distance position m yOffset (processed ! k) \<longrightarrow> k \<le> j"
  proof (intro allI impI)
    fix j
    assume "adjusted_distance position m yOffset (processed ! j) =
            adjusted_distance position m yOffset (processed ! k)"
    then have "\<not> j < k" using inv(3) by auto
    then show "k \<le> j" by simp
  qed
  have euclid: "\<forall>p. adjusted_distance position m yOffset p =
            length3 (subVectors (Vector3 (x p) (y p * m - yOffset) (z p)) (vector_of position))"
    by (cases position)
       (simp add: adjusted_distance_def length3_def subVectors_def vector_of_def power2_eq_square
          Let_def)
  show ?thesis using inv(1,2) ties euclid by blast
qed

theorem closestIndex_nearest_witness:
  "processedPoints hill_track 0 \<noteq> [] \<and>
   StartFinishLine_closestIndex (3, 5, 0) hill_track 2 0 3 = 1 \<and>
   adjusted_distance (3, 5, 0) 2 (- 1) (hill_track ! 1) \<le>
     adjusted_distance (3, 5, 0) 2 (- 1) (hill_track ! 2)"
  using closestIndex_nearest[of hill_track hill_track 0 "- 1" 2 3 1 "(3, 5, 0)"]
  by (simp add: hill_track_def processedPoints_def StartFinishLine_closestIndex_def
      closestIndex_def closest_step_def adjusted_distance_def)

end
